theory Spec2Isabelle
  imports Main "HOL-Library.Word" "HOL-Library.Monad_Syntax"
begin

unbundle bit_operations_syntax

section \<open>Scalar types of the engine (types.h)\<close>

text \<open>
  \<^verbatim>\<open>Value\<close>, \<^verbatim>\<open>Depth\<close> and \<^verbatim>\<open>Square\<close> are the C++ type \<^verbatim>\<open>int\<close>. Signed overflow is
  undefined in C++, so there is no wrap-around to model: the values are mathematical
  integers, and every result below agrees with the program wherever the program's
  arithmetic stays inside the 32-bit range (search values are documented to lie in
  \<open>(-VALUE_NONE, VALUE_NONE]\<close>, plies in \<open>[0, MAX_PLY]\<close>).

  An \<^verbatim>\<open>assert\<close> of the source is an abort of the debug build. It is modelled as the
  result \<open>None\<close>, so that a theorem \<open>f x = Some y\<close> also says that no assertion fails.
\<close>

type_synonym Value = int
type_synonym Square = int
type_synonym Bitboard = "128 word"

definition MAX_PLY :: int where "MAX_PLY = 246"

definition VALUE_ZERO :: Value where "VALUE_ZERO = 0"
definition VALUE_DRAW :: Value where "VALUE_DRAW = 0"
definition VALUE_NONE :: Value where "VALUE_NONE = 32002"
definition VALUE_INFINITE :: Value where "VALUE_INFINITE = 32001"
definition VALUE_MATE :: Value where "VALUE_MATE = 32000"
definition VALUE_MATE_IN_MAX_PLY :: Value where
  "VALUE_MATE_IN_MAX_PLY = VALUE_MATE - MAX_PLY"
definition VALUE_MATED_IN_MAX_PLY :: Value where
  "VALUE_MATED_IN_MAX_PLY = - VALUE_MATE_IN_MAX_PLY"

definition is_valid :: "Value \<Rightarrow> bool" where
  "is_valid v = (v \<noteq> VALUE_NONE)"

text \<open>\<^verbatim>\<open>is_win\<close> and \<^verbatim>\<open>is_loss\<close> assert \<^verbatim>\<open>is_valid(value)\<close> before they compare.\<close>

definition is_win :: "Value \<Rightarrow> bool option" where
  "is_win v = (if is_valid v then Some (v \<ge> VALUE_MATE_IN_MAX_PLY) else None)"

definition is_loss :: "Value \<Rightarrow> bool option" where
  "is_loss v = (if is_valid v then Some (v \<le> VALUE_MATED_IN_MAX_PLY) else None)"

definition mate_in :: "int \<Rightarrow> Value" where
  "mate_in ply = VALUE_MATE - ply"

definition mated_in :: "int \<Rightarrow> Value" where
  "mated_in ply = - VALUE_MATE + ply"

text \<open>
  C++ integer division truncates towards zero and \<^verbatim>\<open>%\<close> is its remainder; HOL's
  \<open>div\<close> and \<open>mod\<close> round down. They agree on a non-negative dividend.
\<close>

definition tdiv :: "int \<Rightarrow> int \<Rightarrow> int" where
  "tdiv a b = sgn a * sgn b * (\<bar>a\<bar> div \<bar>b\<bar>)"

definition tmod :: "int \<Rightarrow> int \<Rightarrow> int" where
  "tmod a b = a - b * tdiv a b"

section \<open>Transposition-table value scaling (search.cpp)\<close>

text \<open>
  \<^verbatim>\<open>value_to_tt(v, ply) = is_win(v) ? v + ply : is_loss(v) ? v - ply : v\<close>; the second
  test is evaluated only when the first is false.
\<close>

definition value_to_tt :: "Value \<Rightarrow> int \<Rightarrow> Value option" where
  "value_to_tt v ply =
     do { w \<leftarrow> is_win v;
          if w then Some (v + ply)
          else do { l \<leftarrow> is_loss v;
                    Some (if l then v - ply else v) } }"

definition value_from_tt :: "Value \<Rightarrow> int \<Rightarrow> int \<Rightarrow> Value option" where
  "value_from_tt v ply r60c =
     (if \<not> is_valid v then Some VALUE_NONE
      else do {
        w \<leftarrow> is_win v;
        if w then
          Some (if VALUE_MATE - v > 120 - r60c then VALUE_MATE_IN_MAX_PLY - 1 else v - ply)
        else do {
          l \<leftarrow> is_loss v;
          if l then
            Some (if VALUE_MATE + v > 120 - r60c then VALUE_MATED_IN_MAX_PLY + 1 else v + ply)
          else Some v } })"

section \<open>The head of \<^verbatim>\<open>Search::Worker::search\<close> (search.cpp)\<close>

text \<open>
  \<^verbatim>\<open>value_draw(size_t nodes) = VALUE_DRAW - 1 + Value(nodes & 0x2)\<close>: the node counter
  is an unsigned 64-bit integer.
\<close>

definition value_draw :: "64 word \<Rightarrow> Value" where
  "value_draw nodes = VALUE_DRAW - 1 + uint (nodes AND 2)"

text \<open>
  What the head of \<^verbatim>\<open>search\<close> reads from its environment before Step 4: its depth, the
  ply and in-check flag of the stack frame, what \<^verbatim>\<open>pos.rule_judge(result, ply)\<close> returned
  and left in \<^verbatim>\<open>result\<close> (which starts as \<^verbatim>\<open>VALUE_NONE\<close>), the value the load of
  \<^verbatim>\<open>threads.stop\<close> observed, the worker's node counter, and the values the calls
  \<^verbatim>\<open>qsearch(pos, ss, alpha, beta)\<close> and \<^verbatim>\<open>evaluate(pos)\<close> return when they are made.
  The writes of Step 1 (\<^verbatim>\<open>ss->inCheck\<close>, \<^verbatim>\<open>ss->moveCount\<close>, \<^verbatim>\<open>selDepth\<close>) and the call of
  \<^verbatim>\<open>check_time\<close> do not enter the value returned before Step 4 other than through these
  observations.
\<close>

record search_obs =
  node_depth :: int
  ss_ply :: int
  ss_inCheck :: bool
  rule_ret :: bool
  rule_result :: Value
  threads_stop :: bool
  thread_nodes :: "64 word"
  qsearch_value :: Value
  evaluate_value :: Value

datatype NodeType = NonPV | PV | Root

datatype outcome = Return Value | Continue Value Value

text \<open>
  Step 2, the window tightening after a two-fold rule result; the source asserts
  \<^verbatim>\<open>result != VALUE_DRAW\<close> there.
\<close>

definition rule_window :: "Value \<Rightarrow> Value \<Rightarrow> Value \<Rightarrow> (Value \<times> Value) option" where
  "rule_window result alpha beta =
     (if result \<noteq> VALUE_NONE then
        (if result = VALUE_DRAW then None
         else if result > VALUE_DRAW then Some (max alpha (VALUE_DRAW - 1), beta)
         else Some (alpha, min beta (VALUE_DRAW + 1)))
      else Some (alpha, beta))"

text \<open>Step 3, mate distance pruning.\<close>

definition mate_distance_pruning :: "int \<Rightarrow> Value \<Rightarrow> Value \<Rightarrow> outcome" where
  "mate_distance_pruning p alpha beta =
     (let alpha' = max (mated_in p) alpha;
          beta' = min (mate_in (p + 1)) beta
      in if alpha' \<ge> beta' then Return alpha' else Continue alpha' beta')"

text \<open>The four assertions on the arguments, after the depth has been limited.\<close>

definition search_asserts :: "NodeType \<Rightarrow> bool \<Rightarrow> int \<Rightarrow> Value \<Rightarrow> Value \<Rightarrow> bool" where
  "search_asserts nodeType cutNode depth alpha beta =
     ((- VALUE_INFINITE \<le> alpha \<and> alpha < beta \<and> beta \<le> VALUE_INFINITE) \<and>
      (nodeType \<noteq> NonPV \<or> alpha = beta - 1) \<and>
      (0 < depth \<and> depth < MAX_PLY) \<and>
      \<not> (nodeType \<noteq> NonPV \<and> cutNode))"

text \<open>
  The function from its entry to the end of Step 3. \<open>Return v\<close> is a \<^verbatim>\<open>return v\<close> of the
  source; \<open>Continue alpha beta\<close> is control reaching Step 4 with that window, past the
  assertion \<^verbatim>\<open>0 <= ss->ply && ss->ply < MAX_PLY\<close>.
\<close>

definition search_head ::
  "NodeType \<Rightarrow> bool \<Rightarrow> search_obs \<Rightarrow> Value \<Rightarrow> Value \<Rightarrow> outcome option" where
  "search_head nodeType cutNode obs alpha beta =
     (if node_depth obs \<le> 0 then Some (Return (qsearch_value obs))
      else if \<not> search_asserts nodeType cutNode (min (node_depth obs) (MAX_PLY - 1)) alpha beta
        then None
      else do {
        r \<leftarrow> (if nodeType \<noteq> Root then
               (if rule_ret obs then
                  Some (Return (if rule_result obs = VALUE_DRAW
                                then value_draw (thread_nodes obs) else rule_result obs))
                else do {
                  (alpha1, beta1) \<leftarrow> rule_window (rule_result obs) alpha beta;
                  if threads_stop obs \<or> ss_ply obs \<ge> MAX_PLY then
                    Some (Return (if ss_ply obs \<ge> MAX_PLY \<and> \<not> ss_inCheck obs
                                  then evaluate_value obs
                                  else value_draw (thread_nodes obs)))
                  else Some (mate_distance_pruning (ss_ply obs) alpha1 beta1) })
             else Some (Continue alpha beta));
        case r of
          Return v \<Rightarrow> Some (Return v)
        | Continue a b \<Rightarrow>
            if 0 \<le> ss_ply obs \<and> ss_ply obs < MAX_PLY then Some (Continue a b) else None })"

text \<open>
  Step 19, after \<^verbatim>\<open>pos.undo_move(move)\<close> in the move loop: a set stop flag makes the
  function return at once; otherwise the loop body goes on (\<open>None\<close>).
\<close>

definition search_after_undo :: "bool \<Rightarrow> Value option" where
  "search_after_undo stop_seen = (if stop_seen then Some VALUE_ZERO else None)"

section \<open>Evaluation adapter (evaluate.cpp)\<close>

text \<open>
  What \<^verbatim>\<open>Eval::evaluate\<close> reads from the position. The network is a function from the
  position to the pair \<^verbatim>\<open>(psqt, positional)\<close>.
\<close>

record position_view =
  checkers :: Bitboard
  major_material :: int
  rule60_count :: int

definition clamp :: "int \<Rightarrow> int \<Rightarrow> int \<Rightarrow> int" where
  "clamp v lo hi = (if v < lo then lo else if hi < v then hi else v)"

definition evaluate :: "(position_view \<Rightarrow> int \<times> int) \<Rightarrow> position_view \<Rightarrow> int \<Rightarrow> Value option" where
  "evaluate network pos optimism =
     (if checkers pos \<noteq> 0 then None
      else case network pos of (psqt, positional) \<Rightarrow>
        let nnue = psqt + positional;
            nnueComplexity = \<bar>psqt - positional\<bar>;
            optimism1 = optimism + tdiv (optimism * nnueComplexity) 485;
            nnue1 = nnue - tdiv (nnue * nnueComplexity) 11683;
            mm = tdiv (major_material pos) 40;
            v = tdiv (nnue1 * (443 + mm) + optimism1 * (76 + mm)) 503;
            v1 = v - tdiv (v * rule60_count pos) 267
        in Some (clamp v1 (VALUE_MATED_IN_MAX_PLY + 1) (VALUE_MATE_IN_MAX_PLY - 1)))"

section \<open>Time manager (timeman.cpp)\<close>

text \<open>
  The fields of \<^verbatim>\<open>TimeManagement\<close>; times and node counts are 64-bit signed integers.
\<close>

record TimeManagement =
  startTime :: int
  optimumTime :: int
  maximumTime :: int
  availableNodes :: int
  useNodesTime :: bool

definition advance_nodes_time :: "int \<Rightarrow> TimeManagement \<Rightarrow> TimeManagement option" where
  "advance_nodes_time n tm =
     (if useNodesTime tm
      then Some (tm\<lparr>availableNodes := max 0 (availableNodes tm - n)\<rparr>)
      else None)"

section \<open>Moves (types.h)\<close>

text \<open>
  A move is 16 bits: bits 0-6 hold the destination square, bits 7-13 the origin square.
  \<^verbatim>\<open>Move(Square from, Square to) : data((from << 7) + to)\<close> computes in \<^verbatim>\<open>int\<close> and
  converts to \<^verbatim>\<open>std::uint16_t\<close>, which keeps the low 16 bits.
\<close>

type_synonym Move = "16 word"

definition Move :: "Square \<Rightarrow> Square \<Rightarrow> Move" where
  "Move from to = word_of_int (push_bit 7 from + to)"

definition Move_null :: Move where "Move_null = 129"
definition Move_none :: Move where "Move_none = 0"

definition Move_is_ok :: "Move \<Rightarrow> bool" where
  "Move_is_ok m = (Move_none \<noteq> m \<and> Move_null \<noteq> m)"

text \<open>\<^verbatim>\<open>from_sq\<close> and \<^verbatim>\<open>to_sq\<close> assert \<^verbatim>\<open>is_ok()\<close>.\<close>

definition from_sq :: "Move \<Rightarrow> Square option" where
  "from_sq m = (if Move_is_ok m then Some (uint (drop_bit 7 m AND 0x7F)) else None)"

definition to_sq :: "Move \<Rightarrow> Square option" where
  "to_sq m = (if Move_is_ok m then Some (uint (m AND 0x7F)) else None)"

section \<open>Squares (types.h)\<close>

definition SQ_A0 :: Square where "SQ_A0 = 0"
definition SQ_I9 :: Square where "SQ_I9 = 89"
definition FILE_NB :: int where "FILE_NB = 9"

definition is_ok :: "Square \<Rightarrow> bool" where
  "is_ok s = (s \<ge> SQ_A0 \<and> s \<le> SQ_I9)"

definition file_of :: "Square \<Rightarrow> int" where
  "file_of s = tmod s FILE_NB"

definition rank_of :: "Square \<Rightarrow> int" where
  "rank_of s = tdiv s FILE_NB"

section \<open>Move text (uci.cpp)\<close>

text \<open>
  \<^verbatim>\<open>square(s) = std::string{char('a' + file_of(s)), char('0' + rank_of(s))}\<close>: the sums are
  computed in \<^verbatim>\<open>int\<close> and narrowed to a byte.
\<close>

definition UCIEngine_square :: "Square \<Rightarrow> string" where
  "UCIEngine_square s =
     [char_of (of_char CHR ''a'' + file_of s), char_of (of_char CHR ''0'' + rank_of s)]"

definition UCIEngine_move :: "Move \<Rightarrow> string option" where
  "UCIEngine_move m =
     (if m = Move_none then Some ''(none)''
      else if m = Move_null then Some ''0000''
      else do { from \<leftarrow> from_sq m;
                to \<leftarrow> to_sq m;
                Some (UCIEngine_square from @ UCIEngine_square to) })"

text \<open>
  \<^verbatim>\<open>to_move\<close> walks \<^verbatim>\<open>MoveList<LEGAL>(pos)\<close> in order and returns the first move whose
  text is \<^verbatim>\<open>str\<close>. The move generator is not part of these sources: the legal move list
  of a position is a parameter.
\<close>

fun to_move_loop :: "Move list \<Rightarrow> string \<Rightarrow> Move option" where
  "to_move_loop [] str = Some Move_none"
| "to_move_loop (m # ms) str =
     do { s \<leftarrow> UCIEngine_move m;
          if str = s then Some m else to_move_loop ms str }"

definition UCIEngine_to_move :: "('pos \<Rightarrow> Move list) \<Rightarrow> 'pos \<Rightarrow> string \<Rightarrow> Move option" where
  "UCIEngine_to_move MoveList_LEGAL pos str = to_move_loop (MoveList_LEGAL pos) str"

section \<open>Sliding attacks (bitboard.cpp)\<close>

datatype PieceType =
  NO_PIECE_TYPE | ROOK | ADVISOR | CANNON | PAWN | KNIGHT | BISHOP | KING | KNIGHT_TO

definition NORTH :: int where "NORTH = 9"
definition EAST :: int where "EAST = 1"
definition SOUTH :: int where "SOUTH = - NORTH"
definition WEST :: int where "WEST = - EAST"

text \<open>
  \<^verbatim>\<open>Bitboards::init\<close> fills \<^verbatim>\<open>SquareBB[s] = Bitboard(1ULL) << std::uint8_t(s)\<close> for the
  squares \<^verbatim>\<open>SQ_A0 .. SQ_I9\<close>.
\<close>

definition square_bb :: "Square \<Rightarrow> Bitboard" where
  "square_bb s = push_bit (nat s) 1"

text \<open>
  Modelled from the spec: the header bitboard.h is not among the sources. It declares
  \<^verbatim>\<open>distance<File>\<close> and \<^verbatim>\<open>distance<Rank>\<close>, the absolute file and rank differences (the
  spec's \<open>|\<Delta>file|\<close> and \<open>|\<Delta>rank|\<close>), \<^verbatim>\<open>distance(x, y)\<close>, which reads the table
  \<^verbatim>\<open>SquareDistance[x][y]\<close> that \<^verbatim>\<open>Bitboards::init\<close> fills with the larger of the two, and
  the operators \<^verbatim>\<open>Bitboard | Square\<close> and \<^verbatim>\<open>Bitboard & Square\<close>, which combine the
  bitboard with \<^verbatim>\<open>square_bb(s)\<close>.
\<close>

definition distance :: "Square \<Rightarrow> Square \<Rightarrow> int" where
  "distance x y = max \<bar>file_of x - file_of y\<bar> \<bar>rank_of x - rank_of y\<bar>"

text \<open>
  The inner loop of \<^verbatim>\<open>sliding_attack\<close>, entered with \<^verbatim>\<open>s = sq + d\<close>,
  \<^verbatim>\<open>hurdle = false\<close> and the attack set accumulated so far:
  \<^verbatim>\<open>for (s = sq + d; is_ok(s) && distance(s - d, s) == 1; s += d)\<close>.
\<close>

function slide ::
  "PieceType \<Rightarrow> int \<Rightarrow> Bitboard \<Rightarrow> Square \<Rightarrow> bool \<Rightarrow> Bitboard \<Rightarrow> Bitboard" where
  "slide pt d occupied s hurdle attack =
     (if is_ok s \<and> distance (s - d) s = 1 then
        let attack1 = (if pt = ROOK \<or> hurdle then attack OR square_bb s else attack)
        in if occupied AND square_bb s \<noteq> 0 then
             (if pt = CANNON \<and> \<not> hurdle then slide pt d occupied (s + d) True attack1
              else attack1)
           else slide pt d occupied (s + d) hurdle attack1
      else attack)"
  by pat_completeness auto
termination
proof (relation "measure (\<lambda>(pt, d, occupied, s, hurdle, attack).
                   nat (if 0 < d then 90 - s else s + 1))")
  show "wf (measure (\<lambda>(pt, d, occupied, s, hurdle, attack).
                   nat (if 0 < d then 90 - s else s + 1)))"
    by simp
next
  fix pt :: PieceType and d :: int and occupied :: Bitboard and s :: Square
    and hurdle :: bool and attack x :: Bitboard
  assume "is_ok s \<and> distance (s - d) s = 1"
  then have "0 \<le> s" and "s \<le> 89" and "d \<noteq> 0"
    by (auto simp: is_ok_def SQ_A0_def SQ_I9_def distance_def)
  then have "nat (if 0 < d then 90 - (s + d) else s + d + 1)
             < nat (if 0 < d then 90 - s else s + 1)"
    by auto
  then show "((pt, d, occupied, s + d, True, x), (pt, d, occupied, s, hurdle, attack))
        \<in> measure (\<lambda>(pt, d, occupied, s, hurdle, attack).
                   nat (if 0 < d then 90 - s else s + 1))"
    and "((pt, d, occupied, s + d, hurdle, x), (pt, d, occupied, s, hurdle, attack))
        \<in> measure (\<lambda>(pt, d, occupied, s, hurdle, attack).
                   nat (if 0 < d then 90 - s else s + 1))"
    by simp_all
qed

text \<open>
  \<^verbatim>\<open>sliding_attack<pt>(sq, occupied)\<close>: the assertion admits the rook and the cannon only;
  the four directions are scanned in the order north, south, east, west.
\<close>

definition sliding_attack :: "PieceType \<Rightarrow> Square \<Rightarrow> Bitboard \<Rightarrow> Bitboard option" where
  "sliding_attack pt sq occupied =
     (if pt = ROOK \<or> pt = CANNON then
        Some (fold (\<lambda>d attack. slide pt d occupied (sq + d) False attack)
                [NORTH, SOUTH, EAST, WEST] 0)
      else None)"

text \<open>
  The squares the loop header alone visits from \<open>s\<close> in direction \<open>d\<close>, that is, the
  scan when nothing makes it break: it ends at the edge of the board.
\<close>

function ray :: "int \<Rightarrow> Square \<Rightarrow> Square list" where
  "ray d s = (if is_ok s \<and> distance (s - d) s = 1 then s # ray d (s + d) else [])"
  by pat_completeness auto
termination
proof (relation "measure (\<lambda>(d, s). nat (if 0 < d then 90 - s else s + 1))")
  show "wf (measure (\<lambda>(d, s). nat (if 0 < d then 90 - s else s + 1)))"
    by simp
next
  fix d :: int and s :: Square
  assume "is_ok s \<and> distance (s - d) s = 1"
  then have "0 \<le> s" and "s \<le> 89" and "d \<noteq> 0"
    by (auto simp: is_ok_def SQ_A0_def SQ_I9_def distance_def)
  then show "((d, s + d), (d, s)) \<in> measure (\<lambda>(d, s). nat (if 0 < d then 90 - s else s + 1))"
    by auto
qed

definition occupied_at :: "Bitboard \<Rightarrow> Square \<Rightarrow> bool" where
  "occupied_at occupied s = (occupied AND square_bb s \<noteq> 0)"

text \<open>How many of the first \<open>k\<close> squares of a ray are occupied.\<close>

definition screens_before :: "Bitboard \<Rightarrow> Square list \<Rightarrow> nat \<Rightarrow> nat" where
  "screens_before occupied r k = length (filter (occupied_at occupied) (take k r))"

declare slide.simps [simp del] ray.simps [simp del]

section \<open>Auxiliary facts\<close>

lemmas value_consts =
  MAX_PLY_def VALUE_ZERO_def VALUE_DRAW_def VALUE_NONE_def VALUE_INFINITE_def
  VALUE_MATE_def VALUE_MATE_IN_MAX_PLY_def VALUE_MATED_IN_MAX_PLY_def

lemma tdiv_nonneg: "0 \<le> a \<Longrightarrow> 0 < b \<Longrightarrow> tdiv a b = a div b"
  by (cases "a = 0") (simp_all add: tdiv_def)

lemma tmod_nonneg: "0 \<le> a \<Longrightarrow> 0 < b \<Longrightarrow> tmod a b = a mod b"
  by (simp add: tmod_def tdiv_nonneg minus_mult_div_eq_mod)

lemma file_of_nonneg: "0 \<le> s \<Longrightarrow> file_of s = s mod 9"
  by (simp add: file_of_def FILE_NB_def tmod_nonneg)

lemma rank_of_nonneg: "0 \<le> s \<Longrightarrow> rank_of s = s div 9"
  by (simp add: rank_of_def FILE_NB_def tdiv_nonneg)

lemma is_ok_iff: "is_ok s \<longleftrightarrow> 0 \<le> s \<and> s \<le> 89"
  by (simp add: is_ok_def SQ_A0_def SQ_I9_def)

subsection \<open>The node counter's bit\<close>

lemma word64_and_exp: "(n::64 word) AND 2 ^ k = (if bit n k then 2 ^ k else 0)"
  by (rule bit_word_eqI) (auto simp add: bit_and_iff bit_exp_iff)

lemma word64_and_2: "(n::64 word) AND 2 = (if bit n 1 then 2 else 0)"
  using word64_and_exp [of n 1] by simp

lemma value_draw_cases: "value_draw n = - 1 \<or> value_draw n = 1"
  by (simp add: value_draw_def VALUE_DRAW_def word64_and_2)

subsection \<open>The two 7-bit fields of a move\<close>

lemma int_and_127: "(k::int) AND 127 = k mod 128"
proof -
  have "(127::int) = mask 7" by (simp add: mask_eq_exp_minus_1)
  then have "k AND 127 = take_bit 7 k" by (simp only: take_bit_eq_mask)
  then show ?thesis by (simp add: take_bit_eq_mod)
qed

lemma uint_low7: "uint ((m::16 word) AND 0x7F) = uint m mod 128"
proof -
  have "uint (m AND 0x7F) = uint m AND uint (0x7F :: 16 word)" by (rule uint_and)
  also have "uint (0x7F :: 16 word) = 127" by simp
  finally show ?thesis by (simp only: int_and_127)
qed

lemma uint_high7: "uint (drop_bit 7 (m::16 word) AND 0x7F) = (uint m div 128) mod 128"
proof -
  have "uint (drop_bit 7 m) = uint m div 128"
    by (simp add: drop_bit_eq_div uint_div)
  then show ?thesis using uint_low7 [of "drop_bit 7 m"] by simp
qed

lemma uint_Move:
  assumes "0 \<le> f" "f \<le> 89" "0 \<le> t" "t \<le> 89"
  shows "uint (Move f t) = f * 128 + t"
proof -
  have e: "push_bit 7 f + t = f * 128 + t" by (simp add: push_bit_eq_mult)
  have "uint (word_of_int (f * 128 + t) :: 16 word) = (f * 128 + t) mod 2 ^ LENGTH(16)"
    by (rule uint_word_of_int)
  also have "\<dots> = f * 128 + t" using assms by simp
  finally show ?thesis by (simp only: Move_def e)
qed

lemma from_to_total:
  assumes "m \<noteq> Move_none" "m \<noteq> Move_null"
  shows "\<exists>f t. from_sq m = Some f \<and> to_sq m = Some t \<and> 0 \<le> f \<and> 0 \<le> t"
  using assms by (auto simp: from_sq_def to_sq_def Move_is_ok_def uint_high7 uint_low7)

subsection \<open>The text of a square\<close>

lemma file_letter:
  assumes "0 \<le> f" "f \<le> 8"
  shows "char_of (of_char CHR ''a'' + f) = ''abcdefghi'' ! nat f"
proof -
  from assms have "f = 0 \<or> f = 1 \<or> f = 2 \<or> f = 3 \<or> f = 4 \<or> f = 5 \<or> f = 6 \<or> f = 7
      \<or> f = 8" by arith
  then show ?thesis by (auto simp: char_of_def)
qed

lemma rank_digit:
  assumes "0 \<le> r" "r \<le> 9"
  shows "char_of (of_char CHR ''0'' + r) = ''0123456789'' ! nat r"
proof -
  from assms have "r = 0 \<or> r = 1 \<or> r = 2 \<or> r = 3 \<or> r = 4 \<or> r = 5 \<or> r = 6 \<or> r = 7
      \<or> r = 8 \<or> r = 9" by arith
  then show ?thesis by (auto simp: char_of_def)
qed

lemma file_of_range: "0 \<le> s \<Longrightarrow> 0 \<le> file_of s \<and> file_of s \<le> 8"
  by (simp add: file_of_nonneg)

lemma rank_of_range: "is_ok s \<Longrightarrow> 0 \<le> rank_of s \<and> rank_of s \<le> 9"
proof -
  assume "is_ok s"
  then have s: "0 \<le> s" "s \<le> 89" by (simp_all add: is_ok_iff)
  then have "0 \<le> s div 9" "s div 9 \<le> 9" by arith+
  then show ?thesis using s by (simp add: rank_of_nonneg)
qed

lemma UCIEngine_square_on_board:
  assumes "is_ok s"
  shows "UCIEngine_square s = [''abcdefghi'' ! nat (file_of s), ''0123456789'' ! nat (rank_of s)]"
proof -
  have s: "0 \<le> s" using assms by (simp add: is_ok_iff)
  have f: "0 \<le> file_of s" "file_of s \<le> 8" using file_of_range [OF s] by simp_all
  have r: "0 \<le> rank_of s" "rank_of s \<le> 9" using rank_of_range [OF assms] by simp_all
  show ?thesis
    by (simp only: UCIEngine_square_def file_letter [OF f] rank_digit [OF r])
qed

lemma UCIEngine_move_total: "\<exists>s. UCIEngine_move m = Some s"
  using from_to_total [of m] by (auto simp: UCIEngine_move_def)

lemma to_move_loop_result:
  "\<exists>r. to_move_loop ms str = Some r \<and>
       ((r \<in> set ms \<and> UCIEngine_move r = Some str) \<or>
        (r = Move_none \<and> (\<forall>m \<in> set ms. UCIEngine_move m \<noteq> Some str)))"
proof (induction ms)
  case Nil
  then show ?case by simp
next
  case (Cons m ms)
  obtain s where s: "UCIEngine_move m = Some s" using UCIEngine_move_total by blast
  show ?case
  proof (cases "str = s")
    case True
    then show ?thesis using s by simp
  next
    case False
    then show ?thesis using s Cons.IH by auto
  qed
qed

subsection \<open>The cannon's scan of one direction\<close>

lemma occupied_at_bit: "occupied_at occupied s = bit occupied (nat s)"
  by (simp add: occupied_at_def bit_iff_and_push_bit_not_eq_0 square_bb_def)

lemma bit_square_bb: "is_ok s \<Longrightarrow> bit (square_bb s) n \<longleftrightarrow> int n = s"
  by (auto simp: square_bb_def bit_exp_iff is_ok_iff)

lemma slide_stop:
  "\<not> (is_ok s \<and> distance (s - d) s = 1) \<Longrightarrow> slide pt d occupied s hurdle attack = attack"
  by (subst slide.simps) auto

lemma slide_cannon_step:
  "is_ok s \<Longrightarrow> distance (s - d) s = 1 \<Longrightarrow>
   slide CANNON d occupied s hurdle attack =
     (if hurdle then
        (if occupied_at occupied s then attack OR square_bb s
         else slide CANNON d occupied (s + d) True (attack OR square_bb s))
      else slide CANNON d occupied (s + d) (occupied_at occupied s) attack)"
  by (subst slide.simps) (simp add: Let_def occupied_at_def)

lemma ray_stop: "\<not> (is_ok s \<and> distance (s - d) s = 1) \<Longrightarrow> ray d s = []"
  by (subst ray.simps) auto

lemma ray_step: "is_ok s \<Longrightarrow> distance (s - d) s = 1 \<Longrightarrow> ray d s = s # ray d (s + d)"
  by (subst ray.simps) simp

lemma screens_before_0: "screens_before occupied r 0 = 0"
  by (simp add: screens_before_def)

lemma screens_before_Suc:
  "screens_before occupied (s # r) (Suc k) =
     (if occupied_at occupied s then Suc (screens_before occupied r k)
      else screens_before occupied r k)"
  by (simp add: screens_before_def)

text \<open>
  The scan of one direction adds a square of the ray exactly when the number of occupied
  squares before it on the ray is 1 (no hurdle crossed yet at the start) or 0 (the
  hurdle already crossed).
\<close>

lemma slide_cannon_bits:
  "bit (slide CANNON d occupied s hurdle attack) n \<longleftrightarrow>
     bit attack n \<or>
     (\<exists>k < length (ray d s). ray d s ! k = int n \<and>
        screens_before occupied (ray d s) k = (if hurdle then 0 else 1))"
proof (induction d s arbitrary: hurdle attack rule: ray.induct)
  case (1 d s)
  show ?case
  proof (cases "is_ok s \<and> distance (s - d) s = 1")
    case False
    then show ?thesis by (simp add: slide_stop ray_stop)
  next
    case True
    then have ok: "is_ok s" and dist: "distance (s - d) s = 1" by simp_all
    note IH = "1.IH" [OF True]
    note r = ray_step [OF ok dist]
    note st = slide_cannon_step [OF ok dist]
    show ?thesis
    proof (cases hurdle)
      case True
      show ?thesis
      proof (cases "occupied_at occupied s")
        case True
        with \<open>hurdle\<close> show ?thesis
          by (auto simp add: st r bit_or_iff bit_square_bb [OF ok] Ex_less_Suc2
              screens_before_0 screens_before_Suc)
      next
        case False
        with \<open>hurdle\<close> show ?thesis
          by (auto simp add: st r IH bit_or_iff bit_square_bb [OF ok] Ex_less_Suc2
              screens_before_0 screens_before_Suc)
      qed
    next
      case False
      then show ?thesis
        by (auto simp add: st r IH Ex_less_Suc2 screens_before_0 screens_before_Suc)
    qed
  qed
qed

subsection \<open>The rays of a board square\<close>

text \<open>
  A board square is \<open>9 * rank + file\<close>. From it the scan of a direction visits the
  squares of the same rank (east, west) or file (north, south) up to the edge of the
  board, nearest first.
\<close>

lemma map_upt_Suc0: "map f [0..<Suc m] = f 0 # map (\<lambda>k. f (Suc k)) [0..<m]"
  by (simp only: map_upt_Suc)

lemma coords:
  assumes "0 \<le> f" "f \<le> 8" "0 \<le> r"
  shows "file_of (9 * r + f) = f" and "rank_of (9 * r + f) = r"
proof -
  have n: "0 \<le> 9 * r + f" using assms by simp
  show "file_of (9 * r + f) = f" using assms by (simp add: file_of_nonneg [OF n])
  show "rank_of (9 * r + f) = r" using assms by (simp add: rank_of_nonneg [OF n])
qed

lemma square_coords:
  assumes "is_ok s"
  shows "s = 9 * rank_of s + file_of s" "0 \<le> file_of s" "file_of s \<le> 8"
    "0 \<le> rank_of s" "rank_of s \<le> 9"
proof -
  have s: "0 \<le> s" "s \<le> 89" using assms by (simp_all add: is_ok_iff)
  have f: "file_of s = s mod 9" and r: "rank_of s = s div 9"
    using s by (simp_all add: file_of_nonneg rank_of_nonneg)
  have m: "0 \<le> s mod 9" "s mod 9 < 9" by simp_all
  have e: "9 * (s div 9) + s mod 9 = s" by (rule mult_div_mod_eq)
  show "s = 9 * rank_of s + file_of s" using e by (simp only: f r)
  show "0 \<le> file_of s" "file_of s \<le> 8" using m by (simp_all only: f)
  show "0 \<le> rank_of s" "rank_of s \<le> 9" using m e s unfolding r by linarith+
qed


lemma distance_rank_step:
  assumes "0 \<le> f" "f \<le> 8" "0 \<le> r"
  shows "distance (9 * r + f) (9 * (r + 1) + f) = 1"
    and "distance (9 * (r + 1) + f) (9 * r + f) = 1"
  using assms coords [of f r] coords [of f "r + 1"] by (simp_all add: distance_def)

lemma distance_file_step:
  assumes "0 \<le> f" "f \<le> 7" "0 \<le> r"
  shows "distance (9 * r + f) (9 * r + (f + 1)) = 1"
    and "distance (9 * r + (f + 1)) (9 * r + f) = 1"
  using assms coords [of f r] coords [of "f + 1" r] by (simp_all add: distance_def)

lemma distance_wrap:
  assumes "0 \<le> r"
  shows "distance (9 * r + 8) (9 * (r + 1) + 0) = 8"
    and "distance (9 * (r + 1) + 0) (9 * r + 8) = 8"
  using assms coords [of 8 r] coords [of 0 "r + 1"] by (simp_all add: distance_def)

lemma ray_east_aux:
  "0 \<le> f \<Longrightarrow> 0 \<le> r \<Longrightarrow> r \<le> 9 \<Longrightarrow> f + int m = 8 \<Longrightarrow>
   ray 1 (9 * r + f + 1) = map (\<lambda>k. 9 * r + f + 1 + int k) [0..<m]"
proof (induction m arbitrary: f)
  case 0
  then have f: "f = 8" by simp
  have "distance (9 * r + f + 1 - 1) (9 * r + f + 1) = distance (9 * r + 8) (9 * (r + 1) + 0)"
    by (simp add: f algebra_simps)
  also have "\<dots> = 8" by (rule distance_wrap(1) [OF \<open>0 \<le> r\<close>])
  finally show ?case by (simp add: ray_stop)
next
  case (Suc m)
  then have f: "0 \<le> f" "f \<le> 7" by simp_all
  have ok: "is_ok (9 * r + f + 1)" using f Suc.prems by (simp add: is_ok_iff)
  have d: "distance (9 * r + f + 1 - 1) (9 * r + f + 1) = 1"
    using distance_file_step(1) [OF f \<open>0 \<le> r\<close>] by (simp add: add.assoc)
  have "ray 1 (9 * r + f + 1) = (9 * r + f + 1) # ray 1 (9 * r + f + 1 + 1)"
    by (rule ray_step [OF ok d])
  also have "ray 1 (9 * r + f + 1 + 1) = map (\<lambda>k. 9 * r + (f + 1) + 1 + int k) [0..<m]"
    using Suc.IH [of "f + 1"] Suc.prems f by (simp add: add.assoc)
  finally show ?case by (simp only: map_upt_Suc0) (simp add: add.assoc)
qed

lemma ray_west_aux:
  "0 \<le> r \<Longrightarrow> r \<le> 9 \<Longrightarrow> f = int m \<Longrightarrow> f \<le> 8 \<Longrightarrow>
   ray (- 1) (9 * r + f - 1) = map (\<lambda>k. 9 * r + f - 1 - int k) [0..<m]"
proof (induction m arbitrary: f)
  case 0
  then have f: "f = 0" by simp
  show ?case
  proof (cases "r = 0")
    case True
    then have "\<not> is_ok (9 * r + f - 1)" by (simp add: is_ok_iff f)
    then show ?thesis by (simp add: ray_stop)
  next
    case False
    with 0 have r: "0 \<le> r - 1" by simp
    have "distance (9 * r + f - 1 - (- 1)) (9 * r + f - 1)
        = distance (9 * (r - 1 + 1) + 0) (9 * (r - 1) + 8)"
      by (simp add: f algebra_simps)
    also have "\<dots> = 8" by (rule distance_wrap(2) [OF r])
    finally show ?thesis by (simp add: ray_stop)
  qed
next
  case (Suc m)
  then have f: "0 \<le> f - 1" "f - 1 \<le> 7" by simp_all
  have ok: "is_ok (9 * r + f - 1)" using f Suc.prems by (simp add: is_ok_iff)
  have d: "distance (9 * r + f - 1 - (- 1)) (9 * r + f - 1) = 1"
    using distance_file_step(2) [OF f \<open>0 \<le> r\<close>] by (simp add: algebra_simps)
  have "ray (- 1) (9 * r + f - 1) = (9 * r + f - 1) # ray (- 1) (9 * r + f - 1 + (- 1))"
    by (rule ray_step [OF ok d])
  also have "ray (- 1) (9 * r + f - 1 + (- 1)) = map (\<lambda>k. 9 * r + (f - 1) - 1 - int k) [0..<m]"
    using Suc.IH [of "f - 1"] Suc.prems f by (simp add: algebra_simps)
  finally show ?case by (simp only: map_upt_Suc0) (simp add: algebra_simps)
qed

lemma ray_north_aux:
  "0 \<le> f \<Longrightarrow> f \<le> 8 \<Longrightarrow> 0 \<le> r \<Longrightarrow> r + int m = 9 \<Longrightarrow>
   ray 9 (9 * r + f + 9) = map (\<lambda>k. 9 * r + f + 9 + 9 * int k) [0..<m]"
proof (induction m arbitrary: r)
  case 0
  then have "\<not> is_ok (9 * r + f + 9)" by (simp add: is_ok_iff)
  then show ?case by (simp add: ray_stop)
next
  case (Suc m)
  then have r: "0 \<le> r" "r \<le> 8" by simp_all
  have ok: "is_ok (9 * r + f + 9)" using r Suc.prems by (simp add: is_ok_iff)
  have d: "distance (9 * r + f + 9 - 9) (9 * r + f + 9) = 1"
    using distance_rank_step(1) [OF Suc.prems(1,2) r(1)] by (simp add: algebra_simps)
  have "ray 9 (9 * r + f + 9) = (9 * r + f + 9) # ray 9 (9 * r + f + 9 + 9)"
    by (rule ray_step [OF ok d])
  also have "ray 9 (9 * r + f + 9 + 9) = map (\<lambda>k. 9 * (r + 1) + f + 9 + 9 * int k) [0..<m]"
    using Suc.IH [of "r + 1"] Suc.prems r by (simp add: algebra_simps)
  finally show ?case by (simp only: map_upt_Suc0) (simp add: algebra_simps)
qed

lemma ray_south_aux:
  "0 \<le> f \<Longrightarrow> f \<le> 8 \<Longrightarrow> r = int m \<Longrightarrow> r \<le> 9 \<Longrightarrow>
   ray (- 9) (9 * r + f - 9) = map (\<lambda>k. 9 * r + f - 9 - 9 * int k) [0..<m]"
proof (induction m arbitrary: r)
  case 0
  then have "\<not> is_ok (9 * r + f - 9)" by (simp add: is_ok_iff)
  then show ?case by (simp add: ray_stop)
next
  case (Suc m)
  then have r: "0 \<le> r - 1" "r - 1 \<le> 8" by simp_all
  have ok: "is_ok (9 * r + f - 9)" using r Suc.prems by (simp add: is_ok_iff)
  have d: "distance (9 * r + f - 9 - (- 9)) (9 * r + f - 9) = 1"
    using distance_rank_step(2) [OF Suc.prems(1,2) r(1)] by (simp add: algebra_simps)
  have "ray (- 9) (9 * r + f - 9) = (9 * r + f - 9) # ray (- 9) (9 * r + f - 9 + (- 9))"
    by (rule ray_step [OF ok d])
  also have "ray (- 9) (9 * r + f - 9 + (- 9))
      = map (\<lambda>k. 9 * (r - 1) + f - 9 - 9 * int k) [0..<m]"
    using Suc.IH [of "r - 1"] Suc.prems r by (simp add: algebra_simps)
  finally show ?case by (simp only: map_upt_Suc0) (simp add: algebra_simps)
qed

lemma ray_squares:
  assumes "is_ok sq"
  shows "ray EAST (sq + EAST) = map (\<lambda>k. sq + 1 + int k) [0..<nat (8 - file_of sq)]"
    and "ray WEST (sq + WEST) = map (\<lambda>k. sq - 1 - int k) [0..<nat (file_of sq)]"
    and "ray NORTH (sq + NORTH) = map (\<lambda>k. sq + 9 + 9 * int k) [0..<nat (9 - rank_of sq)]"
    and "ray SOUTH (sq + SOUTH) = map (\<lambda>k. sq - 9 - 9 * int k) [0..<nat (rank_of sq)]"
proof -
  note c = square_coords [OF assms]
  show "ray EAST (sq + EAST) = map (\<lambda>k. sq + 1 + int k) [0..<nat (8 - file_of sq)]"
    using ray_east_aux [of "file_of sq" "rank_of sq" "nat (8 - file_of sq)"] c
    by (simp add: EAST_def)
  show "ray WEST (sq + WEST) = map (\<lambda>k. sq - 1 - int k) [0..<nat (file_of sq)]"
    using ray_west_aux [of "rank_of sq" "file_of sq" "nat (file_of sq)"] c
    by (simp add: WEST_def EAST_def)
  show "ray NORTH (sq + NORTH) = map (\<lambda>k. sq + 9 + 9 * int k) [0..<nat (9 - rank_of sq)]"
    using ray_north_aux [of "file_of sq" "rank_of sq" "nat (9 - rank_of sq)"] c
    by (simp add: NORTH_def)
  show "ray SOUTH (sq + SOUTH) = map (\<lambda>k. sq - 9 - 9 * int k) [0..<nat (rank_of sq)]"
    using ray_south_aux [of "file_of sq" "rank_of sq" "nat (rank_of sq)"] c
    by (simp add: SOUTH_def NORTH_def)
qed

lemma clamp_range: "lo \<le> hi \<Longrightarrow> lo \<le> clamp v lo hi \<and> clamp v lo hi \<le> hi"
  by (simp add: clamp_def)

lemma cannon_example:
  "sliding_attack CANNON 0 (square_bb 2 OR square_bb 5) = Some 56"
  by code_simp

section \<open>The claims\<close>

subsection \<open>C1: the cannon's reference attack routine\<close>

text \<open>
  C1, as amended. For every board square \<open>sq\<close> and every occupancy,
  \<^verbatim>\<open>sliding_attack<CANNON>(sq, occupied)\<close> returns the bitboard that holds a square exactly
  when, for one of the four directions north, south, east, west, the square lies on the
  ray from \<open>sq\<close> in that direction and exactly one square of the ray before it is
  occupied. So in each direction nothing is added up to and including the first occupier
  (the screen); after the screen every square is added, empty or not, up to and including
  the next occupier; then the scan of that direction stops. The ray of a direction is
  the list of squares from \<open>sq\<close> to the edge of the board (\<open>ray_squares\<close>).
\<close>

theorem cannon_sliding_attack:
  assumes "is_ok sq"
  shows "\<exists>attack. sliding_attack CANNON sq occupied = Some attack \<and>
     (\<forall>n. bit attack n \<longleftrightarrow>
        (\<exists>d \<in> {NORTH, SOUTH, EAST, WEST}. \<exists>k < length (ray d (sq + d)).
           ray d (sq + d) ! k = int n \<and> screens_before occupied (ray d (sq + d)) k = 1))"
  by (simp add: sliding_attack_def slide_cannon_bits)

text \<open>
  The theorem at the corner square a0 with occupiers on c0 and f0: the result is
  \<open>{d0, e0, f0}\<close>, the number 56.
\<close>

theorem cannon_sliding_attack_witness:
  "is_ok 0 \<and> sliding_attack CANNON 0 (square_bb 2 OR square_bb 5) = Some 56 \<and>
   (\<forall>n. bit (56 :: Bitboard) n \<longleftrightarrow>
      (\<exists>d \<in> {NORTH, SOUTH, EAST, WEST}. \<exists>k < length (ray d (0 + d)).
         ray d (0 + d) ! k = int n \<and>
         screens_before (square_bb 2 OR square_bb 5) (ray d (0 + d)) k = 1))"
proof -
  have ok: "is_ok 0" by (simp add: is_ok_iff)
  show ?thesis
    using ok cannon_sliding_attack [OF ok, of "square_bb 2 OR square_bb 5"] cannon_example
    by auto
qed

text \<open>
  C1 as stated fails. From a0 with occupiers on c0 (the screen) and f0, the claim puts
  b0, a non-capture square before the screen, into the result and lets f0 be the only
  square added after the screen. The routine leaves b0 out and adds the empty squares d0
  and e0 together with f0.
\<close>

theorem cannon_sliding_attack_counterexample:
  "sliding_attack CANNON 0 (square_bb 2 OR square_bb 5)
     = Some (square_bb 3 OR square_bb 4 OR square_bb 5) \<and>
   \<not> occupied_at (square_bb 2 OR square_bb 5) 1 \<and>
   \<not> bit (square_bb 3 OR square_bb 4 OR square_bb 5) (1::nat) \<and>
   \<not> occupied_at (square_bb 2 OR square_bb 5) 3 \<and>
   bit (square_bb 3 OR square_bb 4 OR square_bb 5) (3::nat)"
  using cannon_example by (simp add: square_bb_def occupied_at_def)

subsection \<open>C2: transposition-table value scaling\<close>

text \<open>
  C2, as amended. For every valid value \<open>v\<close> and every ply \<open>\<ge> 0\<close>, \<^verbatim>\<open>value_to_tt\<close>
  yields a stored value \<open>t\<close>, and if \<open>t\<close> is not \<^verbatim>\<open>VALUE_NONE\<close> then
  \<^verbatim>\<open>value_from_tt(t, ply, r60c)\<close> is: \<^verbatim>\<open>VALUE_MATE_IN_MAX_PLY - 1\<close> when \<open>t\<close> is a win
  and \<^verbatim>\<open>VALUE_MATE - t > 120 - r60c\<close>; \<^verbatim>\<open>VALUE_MATED_IN_MAX_PLY + 1\<close> when \<open>t\<close> is a
  loss and \<^verbatim>\<open>VALUE_MATE + t > 120 - r60c\<close>; and \<open>v\<close> itself in every other case.
\<close>

theorem value_tt_roundtrip:
  assumes "v \<noteq> VALUE_NONE" and "0 \<le> ply"
  shows "\<exists>t. value_to_tt v ply = Some t \<and>
           (t \<noteq> VALUE_NONE \<longrightarrow>
            value_from_tt t ply r60c = Some
              (if VALUE_MATE_IN_MAX_PLY \<le> t \<and> VALUE_MATE - t > 120 - r60c
                 then VALUE_MATE_IN_MAX_PLY - 1
               else if t \<le> VALUE_MATED_IN_MAX_PLY \<and> VALUE_MATE + t > 120 - r60c
                 then VALUE_MATED_IN_MAX_PLY + 1
               else v))"
  using assms
  by (auto simp: value_to_tt_def value_from_tt_def is_win_def is_loss_def is_valid_def
      value_consts)

theorem value_tt_roundtrip_witness:
  "(31900::int) \<noteq> VALUE_NONE \<and> (0::int) \<le> 10 \<and> value_to_tt 31900 10 = Some 31910 \<and>
   value_from_tt 31910 10 0 = Some 31900 \<and>
   value_from_tt 31910 10 40 = Some (VALUE_MATE_IN_MAX_PLY - 1)"
  using value_tt_roundtrip [of 31900 10 0] value_tt_roundtrip [of 31900 10 40]
  by (simp add: value_to_tt_def is_win_def is_valid_def value_consts)

text \<open>
  C2 as stated fails in its second half: when the downgrade fires on a win, the result
  is \<^verbatim>\<open>VALUE_MATE_IN_MAX_PLY - 1 = 31753\<close>, the highest non-mate score, and not
  \<^verbatim>\<open>VALUE_MATE_IN_MAX_PLY = 31754\<close>.
\<close>

theorem value_from_tt_clamp_counterexample:
  "value_to_tt 31900 0 = Some 31900 \<and> VALUE_MATE - 31900 > 120 - (50::int) \<and>
   value_from_tt 31900 0 50 = Some 31753 \<and> (31753::int) \<noteq> VALUE_MATE_IN_MAX_PLY"
  by (simp add: value_to_tt_def value_from_tt_def is_win_def is_valid_def value_consts)

subsection \<open>C3: mate distance pruning\<close>

text \<open>
  C3. At a non-root node, when control reaches Step 3 (the depth is positive, the
  assertions on the arguments hold, the rule judgement did not end the node, no stop was
  observed and the ply is below \<^verbatim>\<open>MAX_PLY\<close>), with \<open>alpha1\<close> and \<open>beta1\<close> the
  window Step 2 leaves: alpha becomes \<open>max(mated_in(ply), alpha1)\<close>, beta becomes
  \<open>min(mate_in(ply + 1), beta1)\<close>, and if the new alpha is at least the new beta the
  function returns that alpha; otherwise the search goes on to Step 4 with the new
  window.
\<close>

theorem mate_distance_pruning_step:
  assumes "nodeType \<noteq> Root" and "0 < node_depth obs"
    and "search_asserts nodeType cutNode (min (node_depth obs) (MAX_PLY - 1)) alpha beta"
    and "\<not> rule_ret obs"
    and "rule_window (rule_result obs) alpha beta = Some (alpha1, beta1)"
    and "\<not> threads_stop obs" and "0 \<le> ss_ply obs" and "ss_ply obs < MAX_PLY"
  shows "search_head nodeType cutNode obs alpha beta = Some
     (if max (mated_in (ss_ply obs)) alpha1 \<ge> min (mate_in (ss_ply obs + 1)) beta1
      then Return (max (mated_in (ss_ply obs)) alpha1)
      else Continue (max (mated_in (ss_ply obs)) alpha1)
                    (min (mate_in (ss_ply obs + 1)) beta1))"
  using assms by (simp add: search_head_def mate_distance_pruning_def Let_def)

text \<open>
  A zero-window node at ply 2 whose alpha is already a mate in two plies is cut; a
  PV node at ply 2 with the full window goes on with the window \<open>[-31998, 31997]\<close>.
\<close>

theorem mate_distance_pruning_step_witness:
  "search_head NonPV True
     \<lparr>node_depth = 3, ss_ply = 2, ss_inCheck = False, rule_ret = False,
      rule_result = VALUE_NONE, threads_stop = False, thread_nodes = 0,
      qsearch_value = 0, evaluate_value = 0\<rparr> 31998 31999 = Some (Return 31998) \<and>
   search_head PV False
     \<lparr>node_depth = 3, ss_ply = 2, ss_inCheck = False, rule_ret = False,
      rule_result = VALUE_NONE, threads_stop = False, thread_nodes = 0,
      qsearch_value = 0, evaluate_value = 0\<rparr> (- 32001) 32001
     = Some (Continue (- 31998) 31997)"
  using mate_distance_pruning_step [of NonPV
     "\<lparr>node_depth = 3, ss_ply = 2, ss_inCheck = False, rule_ret = False,
      rule_result = VALUE_NONE, threads_stop = False, thread_nodes = 0,
      qsearch_value = 0, evaluate_value = 0\<rparr>" True 31998 31999 31998 31999]
    mate_distance_pruning_step [of PV
     "\<lparr>node_depth = 3, ss_ply = 2, ss_inCheck = False, rule_ret = False,
      rule_result = VALUE_NONE, threads_stop = False, thread_nodes = 0,
      qsearch_value = 0, evaluate_value = 0\<rparr>" False "- 32001" 32001 "- 32001" 32001]
  by (simp add: search_asserts_def rule_window_def mate_in_def mated_in_def value_consts)

subsection \<open>C4: the stop flag\<close>

text \<open>
  C4, as amended. At the top of a non-root invocation of \<^verbatim>\<open>search\<close> with positive depth
  whose rule judgement does not end the node, a stop flag observed set makes the function
  return \<^verbatim>\<open>value_draw(nodes)\<close>, which is \<open>-1\<close> or \<open>+1\<close> (or \<^verbatim>\<open>evaluate(pos)\<close> when the
  ply has reached \<^verbatim>\<open>MAX_PLY\<close> and the side to move is not in check). \<^verbatim>\<open>VALUE_ZERO\<close> is
  what the function returns when it observes the flag set in the move loop, after undoing
  a move.
\<close>

theorem stop_at_top_of_search:
  assumes "nodeType \<noteq> Root" and "0 < node_depth obs"
    and "search_asserts nodeType cutNode (min (node_depth obs) (MAX_PLY - 1)) alpha beta"
    and "\<not> rule_ret obs" and "rule_result obs \<noteq> VALUE_DRAW"
    and "threads_stop obs"
  shows "search_head nodeType cutNode obs alpha beta =
           Some (Return (if ss_ply obs \<ge> MAX_PLY \<and> \<not> ss_inCheck obs
                         then evaluate_value obs
                         else value_draw (thread_nodes obs))) \<and>
         (value_draw (thread_nodes obs) = - 1 \<or> value_draw (thread_nodes obs) = 1) \<and>
         search_after_undo True = Some VALUE_ZERO"
proof -
  have "\<exists>w. rule_window (rule_result obs) alpha beta = Some w"
    using assms(5) by (simp add: rule_window_def)
  then obtain alpha1 beta1
    where "rule_window (rule_result obs) alpha beta = Some (alpha1, beta1)"
    by (metis surj_pair)
  then show ?thesis
    using assms value_draw_cases [of "thread_nodes obs"]
    by (simp add: search_head_def search_after_undo_def)
qed

theorem stop_at_top_of_search_witness:
  "search_head NonPV False
     \<lparr>node_depth = 1, ss_ply = 1, ss_inCheck = False, rule_ret = False,
      rule_result = VALUE_NONE, threads_stop = True, thread_nodes = 2,
      qsearch_value = 0, evaluate_value = 0\<rparr> 10 11 = Some (Return 1)"
  using stop_at_top_of_search [of NonPV
     "\<lparr>node_depth = 1, ss_ply = 1, ss_inCheck = False, rule_ret = False,
      rule_result = VALUE_NONE, threads_stop = True, thread_nodes = 2,
      qsearch_value = 0, evaluate_value = 0\<rparr>" False 10 11]
  by (simp add: search_asserts_def value_draw_def value_consts)

text \<open>
  C4 as stated fails: a non-root zero-window node at ply 1 that observes the stop flag at
  the top of \<^verbatim>\<open>search\<close>, with an even node counter, returns \<open>-1\<close>, not
  \<^verbatim>\<open>VALUE_ZERO\<close>.
\<close>

theorem stop_returns_zero_counterexample:
  "search_head NonPV False
     \<lparr>node_depth = 1, ss_ply = 1, ss_inCheck = False, rule_ret = False,
      rule_result = VALUE_NONE, threads_stop = True, thread_nodes = 0,
      qsearch_value = 0, evaluate_value = 0\<rparr> (- 1) 0 = Some (Return (- 1)) \<and>
   Return (- 1) \<noteq> Return VALUE_ZERO"
  by (simp add: search_head_def search_asserts_def rule_window_def value_draw_def
      value_consts)

subsection \<open>C6: a static evaluation is never a mate score\<close>

text \<open>
  C6. For every position that is not in check, every network output and every optimism,
  \<^verbatim>\<open>Eval::evaluate\<close> returns a value \<open>v\<close> with
  \<open>VALUE_MATED_IN_MAX_PLY + 1 \<le> v \<le> VALUE_MATE_IN_MAX_PLY - 1\<close>.
\<close>

theorem evaluate_not_mate_range:
  assumes "checkers pos = 0"
  shows "\<exists>v. evaluate network pos optimism = Some v \<and>
              VALUE_MATED_IN_MAX_PLY + 1 \<le> v \<and> v \<le> VALUE_MATE_IN_MAX_PLY - 1"
proof -
  obtain psqt positional where n: "network pos = (psqt, positional)"
    by (cases "network pos")
  have b: "VALUE_MATED_IN_MAX_PLY + 1 \<le> VALUE_MATE_IN_MAX_PLY - 1"
    by (simp add: value_consts)
  have "\<exists>x. evaluate network pos optimism
          = Some (clamp x (VALUE_MATED_IN_MAX_PLY + 1) (VALUE_MATE_IN_MAX_PLY - 1))"
    unfolding evaluate_def Let_def n using assms by (simp only: if_False simp_thms prod.case) blast
  then show ?thesis
    using clamp_range [OF b] by auto
qed

theorem evaluate_not_mate_range_witness:
  "checkers \<lparr>checkers = 0, major_material = 4000, rule60_count = 0\<rparr> = 0 \<and>
   evaluate (\<lambda>p. (40000, 20000)) \<lparr>checkers = 0, major_material = 4000, rule60_count = 0\<rparr> 0
     = Some (- 31753) \<and>
   evaluate (\<lambda>p. (- 300, 120)) \<lparr>checkers = 0, major_material = 4000, rule60_count = 10\<rparr> 7
     = Some (- 177)"
proof -
  have e1: "evaluate (\<lambda>p. (40000, 20000))
      \<lparr>checkers = 0, major_material = 4000, rule60_count = 0\<rparr> 0 = Some (- 31753)"
    by code_simp
  have e2: "evaluate (\<lambda>p. (- 300, 120))
      \<lparr>checkers = 0, major_material = 4000, rule60_count = 10\<rparr> 7 = Some (- 177)"
    by code_simp
  show ?thesis
    using evaluate_not_mate_range
      [of "\<lparr>checkers = 0, major_material = 4000, rule60_count = 0\<rparr>"
          "\<lambda>p. (40000, 20000)" 0]
    by (simp add: e1 e2)
qed

subsection \<open>C7: the text of a move\<close>

text \<open>
  C7. \<^verbatim>\<open>UCIEngine::move\<close> renders \<^verbatim>\<open>Move::none()\<close> as \<open>(none)\<close> and \<^verbatim>\<open>Move::null()\<close> as
  \<open>0000\<close>. Every other move is rendered as four characters, the text of its origin
  square followed by the text of its destination square; the two fields of a move hold
  board squares, and for board squares the four characters are file letter, rank digit,
  file letter, rank digit, the letter taken from \<open>a..i\<close> by the file \<open>0..8\<close> and the
  digit from \<open>0..9\<close> by the rank.
\<close>

theorem UCIEngine_move_text:
  "UCIEngine_move Move_none = Some ''(none)'' \<and>
   UCIEngine_move Move_null = Some ''0000'' \<and>
   (m \<noteq> Move_none \<and> m \<noteq> Move_null \<longrightarrow>
     (\<exists>from to. from_sq m = Some from \<and> to_sq m = Some to \<and>
        UCIEngine_move m = Some (UCIEngine_square from @ UCIEngine_square to) \<and>
        length (UCIEngine_square from @ UCIEngine_square to) = 4 \<and>
        (is_ok from \<and> is_ok to \<longrightarrow>
           UCIEngine_move m =
             Some [''abcdefghi'' ! nat (file_of from), ''0123456789'' ! nat (rank_of from),
                   ''abcdefghi'' ! nat (file_of to), ''0123456789'' ! nat (rank_of to)] \<and>
           0 \<le> file_of from \<and> file_of from \<le> 8 \<and> 0 \<le> rank_of from \<and> rank_of from \<le> 9 \<and>
           0 \<le> file_of to \<and> file_of to \<le> 8 \<and> 0 \<le> rank_of to \<and> rank_of to \<le> 9)))"
proof (intro conjI impI)
  show "UCIEngine_move Move_none = Some ''(none)''"
    by (simp add: UCIEngine_move_def)
  show "UCIEngine_move Move_null = Some ''0000''"
    by (simp add: UCIEngine_move_def Move_null_def Move_none_def)
next
  assume m: "m \<noteq> Move_none \<and> m \<noteq> Move_null"
  then obtain f t where ft: "from_sq m = Some f" "to_sq m = Some t" "0 \<le> f" "0 \<le> t"
    using from_to_total [of m] by blast
  have mv: "UCIEngine_move m = Some (UCIEngine_square f @ UCIEngine_square t)"
    using m ft by (simp add: UCIEngine_move_def)
  have "is_ok f \<and> is_ok t \<longrightarrow>
           UCIEngine_move m =
             Some [''abcdefghi'' ! nat (file_of f), ''0123456789'' ! nat (rank_of f),
                   ''abcdefghi'' ! nat (file_of t), ''0123456789'' ! nat (rank_of t)] \<and>
           0 \<le> file_of f \<and> file_of f \<le> 8 \<and> 0 \<le> rank_of f \<and> rank_of f \<le> 9 \<and>
           0 \<le> file_of t \<and> file_of t \<le> 8 \<and> 0 \<le> rank_of t \<and> rank_of t \<le> 9"
    using file_of_range [OF ft(3)] file_of_range [OF ft(4)] rank_of_range [of f]
      rank_of_range [of t]
    by (simp add: mv UCIEngine_square_on_board)
  moreover note ft(1,2) mv
  moreover have "length (UCIEngine_square f @ UCIEngine_square t) = 4"
    by (simp add: UCIEngine_square_def)
  ultimately show "\<exists>from to. from_sq m = Some from \<and> to_sq m = Some to \<and>
        UCIEngine_move m = Some (UCIEngine_square from @ UCIEngine_square to) \<and>
        length (UCIEngine_square from @ UCIEngine_square to) = 4 \<and>
        (is_ok from \<and> is_ok to \<longrightarrow>
           UCIEngine_move m =
             Some [''abcdefghi'' ! nat (file_of from), ''0123456789'' ! nat (rank_of from),
                   ''abcdefghi'' ! nat (file_of to), ''0123456789'' ! nat (rank_of to)] \<and>
           0 \<le> file_of from \<and> file_of from \<le> 8 \<and> 0 \<le> rank_of from \<and> rank_of from \<le> 9 \<and>
           0 \<le> file_of to \<and> file_of to \<le> 8 \<and> 0 \<le> rank_of to \<and> rank_of to \<le> 9)"
    by blast
qed

text \<open>The move b0-b2, encoded as \<open>(1 << 7) + 19 = 147\<close>.\<close>

theorem UCIEngine_move_text_witness:
  "(147 :: Move) \<noteq> Move_none \<and> (147 :: Move) \<noteq> Move_null \<and>
   from_sq 147 = Some 1 \<and> to_sq 147 = Some 19 \<and> is_ok 1 \<and> is_ok 19 \<and>
   UCIEngine_move 147 = Some ''b0b2''"
  using UCIEngine_move_text [of 147]
  by (simp add: Move_none_def Move_null_def from_sq_def to_sq_def Move_is_ok_def
      is_ok_iff uint_high7 uint_low7 file_of_nonneg rank_of_nonneg UCIEngine_square_def
      char_of_def)

subsection \<open>C8: the 7-bit packing of a move\<close>

text \<open>
  C8. For all board squares \<open>from\<close> and \<open>to\<close> whose encoding is neither
  \<^verbatim>\<open>Move::none()\<close> nor \<^verbatim>\<open>Move::null()\<close>, the move \<^verbatim>\<open>Move(from, to)\<close> has
  \<^verbatim>\<open>from_sq() = from\<close> and \<^verbatim>\<open>to_sq() = to\<close>.
\<close>

theorem Move_packing_roundtrip:
  assumes "is_ok from" and "is_ok to"
    and "Move from to \<noteq> Move_none" and "Move from to \<noteq> Move_null"
  shows "from_sq (Move from to) = Some from \<and> to_sq (Move from to) = Some to"
proof -
  have r: "0 \<le> from" "from \<le> 89" "0 \<le> to" "to \<le> 89"
    using assms(1,2) by (simp_all add: is_ok_iff)
  have u: "uint (Move from to) = from * 128 + to" by (rule uint_Move [OF r])
  have ok: "Move_is_ok (Move from to)"
    using assms(3,4) by (auto simp: Move_is_ok_def)
  have "uint (drop_bit 7 (Move from to) AND 0x7F) = from"
    by (simp only: uint_high7 u) (use r in simp)
  moreover have "uint (Move from to AND 0x7F) = to"
    by (simp only: uint_low7 u) (use r in simp)
  ultimately show ?thesis
    by (simp only: from_sq_def to_sq_def ok if_True simp_thms)
qed

theorem Move_packing_roundtrip_witness:
  "is_ok 88 \<and> is_ok 89 \<and> Move 88 89 \<noteq> Move_none \<and> Move 88 89 \<noteq> Move_null \<and>
   Move 88 89 = 11353 \<and> from_sq (Move 88 89) = Some 88 \<and> to_sq (Move 88 89) = Some 89"
proof -
  have h: "is_ok 88" "is_ok 89" "Move 88 89 \<noteq> Move_none" "Move 88 89 \<noteq> Move_null"
    by (simp_all add: is_ok_iff Move_def Move_none_def Move_null_def)
  have "Move 88 89 = 11353" by (simp add: Move_def)
  with h Move_packing_roundtrip [OF h] show ?thesis by simp
qed

subsection \<open>C9: parsing a move\<close>

text \<open>
  C9. For every position, with its list of legal moves, and every string,
  \<^verbatim>\<open>UCIEngine::to_move(pos, str)\<close> returns a move: either a legal move of the position
  whose text is the string, or \<^verbatim>\<open>Move::none()\<close> when no legal move of the position has
  that text. It never returns an illegal move.
\<close>

theorem UCIEngine_to_move_result:
  "\<exists>r. UCIEngine_to_move MoveList_LEGAL pos str = Some r \<and>
       ((r \<in> set (MoveList_LEGAL pos) \<and> UCIEngine_move r = Some str) \<or>
        (r = Move_none \<and> (\<forall>m \<in> set (MoveList_LEGAL pos). UCIEngine_move m \<noteq> Some str)))"
  unfolding UCIEngine_to_move_def by (rule to_move_loop_result)

theorem UCIEngine_to_move_result_witness:
  "UCIEngine_to_move (\<lambda>pos. [147, 9]) () ''a0a1'' = Some 9 \<and>
   UCIEngine_to_move (\<lambda>pos. [147, 9]) () ''a0a2'' = Some Move_none"
proof -
  have t: "UCIEngine_move 147 = Some ''b0b2''" "UCIEngine_move 9 = Some ''a0a1''"
    by (simp_all add: UCIEngine_move_def Move_none_def Move_null_def from_sq_def to_sq_def
        Move_is_ok_def uint_high7 uint_low7 UCIEngine_square_def file_of_nonneg
        rank_of_nonneg char_of_def)
  show ?thesis
    using UCIEngine_to_move_result [of "\<lambda>pos. [147, 9]" "()" "''a0a1''"]
      UCIEngine_to_move_result [of "\<lambda>pos. [147, 9]" "()" "''a0a2''"] t
    by (auto simp: UCIEngine_to_move_def Move_none_def)
qed

subsection \<open>C10: the node pool in nodes-as-time mode\<close>

text \<open>
  C10. In nodes-as-time mode, \<^verbatim>\<open>advance_nodes_time(n)\<close> sets the remaining node pool to
  \<open>max(0, availableNodes - n)\<close>; the pool is never negative afterwards.
\<close>

theorem advance_nodes_time_clamps:
  assumes "useNodesTime tm"
  shows "advance_nodes_time n tm
           = Some (tm\<lparr>availableNodes := max 0 (availableNodes tm - n)\<rparr>) \<and>
         0 \<le> max 0 (availableNodes tm - n)"
  using assms by (simp add: advance_nodes_time_def)

text \<open>A pool of 100 nodes: 250 consumed nodes empty it, 30 leave 70.\<close>

theorem advance_nodes_time_clamps_witness:
  "advance_nodes_time 250
     \<lparr>startTime = 0, optimumTime = 0, maximumTime = 0, availableNodes = 100,
      useNodesTime = True\<rparr>
     = Some \<lparr>startTime = 0, optimumTime = 0, maximumTime = 0, availableNodes = 0,
             useNodesTime = True\<rparr> \<and>
   advance_nodes_time 30
     \<lparr>startTime = 0, optimumTime = 0, maximumTime = 0, availableNodes = 100,
      useNodesTime = True\<rparr>
     = Some \<lparr>startTime = 0, optimumTime = 0, maximumTime = 0, availableNodes = 70,
             useNodesTime = True\<rparr>"
  using advance_nodes_time_clamps
     [of "\<lparr>startTime = 0, optimumTime = 0, maximumTime = 0, availableNodes = 100,
          useNodesTime = True\<rparr>" 250]
    advance_nodes_time_clamps
     [of "\<lparr>startTime = 0, optimumTime = 0, maximumTime = 0, availableNodes = 100,
          useNodesTime = True\<rparr>" 30]
  by simp

end
